theory Spec2Isabelle
  imports Main
begin

section \<open>Path primitives of the Python standard library (posixpath)\<close>

text \<open>
  \<^verbatim>\<open>format_io_utils.py\<close> manipulates paths only through \<^verbatim>\<open>os.path.splitext\<close>,
  \<^verbatim>\<open>os.path.dirname\<close>, \<^verbatim>\<open>os.path.basename\<close>, \<^verbatim>\<open>os.path.join\<close> and \<^verbatim>\<open>str.split\<close>.
  They are modelled here after their POSIX implementation, index by index. A path is a
  \<^typ>\<open>string\<close>.
\<close>

text \<open>\<^verbatim>\<open>p.rfind(c)\<close>: the index of the last occurrence of \<open>c\<close>, or \<open>-1\<close>.\<close>

fun rfind :: "char \<Rightarrow> string \<Rightarrow> int" where
  "rfind c [] = - 1"
| "rfind c (x # xs) =
     (let r = rfind c xs in if 0 \<le> r then r + 1 else if x = c then 0 else - 1)"

text \<open>
  \<^verbatim>\<open>while filenameIndex < dotIndex:
      if p[filenameIndex:filenameIndex+1] != extsep:
          return p[:dotIndex], p[dotIndex:]
      filenameIndex += 1
  return p, p[:0]\<close>
\<close>

function splitext_loop :: "string \<Rightarrow> nat \<Rightarrow> nat \<Rightarrow> string \<times> string" where
  "splitext_loop p filenameIndex dotIndex =
     (if filenameIndex < dotIndex then
        (if take 1 (drop filenameIndex p) \<noteq> ''.'' then (take dotIndex p, drop dotIndex p)
         else splitext_loop p (filenameIndex + 1) dotIndex)
      else (p, []))"
  by pat_completeness auto
termination
  by (relation "measure (\<lambda>(p, i, d). d - i)") auto

declare splitext_loop.simps [simp del]

text \<open>
  \<^verbatim>\<open>sepIndex = p.rfind(sep); dotIndex = p.rfind(extsep)
  if dotIndex > sepIndex: (skip all leading dots) ...
  return p, p[:0]\<close>
\<close>

definition splitext :: "string \<Rightarrow> string \<times> string" where
  "splitext p =
     (let sepIndex = rfind CHR ''/'' p; dotIndex = rfind CHR ''.'' p in
      if dotIndex > sepIndex then splitext_loop p (nat (sepIndex + 1)) (nat dotIndex)
      else (p, []))"

text \<open>\<^verbatim>\<open>i = p.rfind('/') + 1; return p[i:]\<close>\<close>

definition basename :: "string \<Rightarrow> string" where
  "basename p = drop (nat (rfind CHR ''/'' p + 1)) p"

text \<open>\<^verbatim>\<open>head.rstrip('/')\<close>\<close>

definition rstrip_sep :: "string \<Rightarrow> string" where
  "rstrip_sep s = rev (dropWhile (\<lambda>c. c = CHR ''/'') (rev s))"

text \<open>
  \<^verbatim>\<open>i = p.rfind('/') + 1; head = p[:i]
  if head and head != '/'*len(head): head = head.rstrip('/')
  return head\<close>
\<close>

definition dirname :: "string \<Rightarrow> string" where
  "dirname p =
     (let head = take (nat (rfind CHR ''/'' p + 1)) p in
      if head \<noteq> [] \<and> head \<noteq> replicate (length head) CHR ''/'' then rstrip_sep head
      else head)"

text \<open>
  \<^verbatim>\<open>os.path.join(a, b)\<close> with one component:
  \<^verbatim>\<open>if b.startswith('/'): path = b
  elif not path or path.endswith('/'): path += b
  else: path += '/' + b\<close>
\<close>

definition join :: "string \<Rightarrow> string \<Rightarrow> string" where
  "join a b =
     (if take 1 b = ''/'' then b
      else if a = [] \<or> last a = CHR ''/'' then a @ b
      else a @ ''/'' @ b)"

text \<open>\<^verbatim>\<open>s.split('.', 1)[0]\<close>: the part of \<open>s\<close> before its first dot, all of \<open>s\<close> if it has none.\<close>

definition split_dot_first :: "string \<Rightarrow> string" where
  "split_dot_first s = takeWhile (\<lambda>c. c \<noteq> CHR ''.'') s"

text \<open>\<^verbatim>\<open>a_str.endswith(ext)\<close>\<close>

definition endswith :: "string \<Rightarrow> string \<Rightarrow> bool" where
  "endswith s ext = (length ext \<le> length s \<and> drop (length s - length ext) s = ext)"


section \<open>Formats, readers, errors\<close>

text \<open>
  \<^verbatim>\<open>ImageDataFormat\<close> is the enumeration imported from \<^verbatim>\<open>data_io.format_io\<close>; the
  module uses its members \<^verbatim>\<open>nifti\<close> and \<^verbatim>\<open>dicom\<close>.
\<close>

datatype ImageDataFormat = nifti | dicom

text \<open>The objects returned by \<^verbatim>\<open>get_reader\<close> and \<^verbatim>\<open>get_writer\<close>.\<close>

datatype DataReader = NiftiReader | DicomReader

datatype DataWriter = NiftiWriter | DicomWriter

text \<open>
  What a reader's \<^verbatim>\<open>load\<close> returns: one volume, or a Python list of volumes
  (\<^verbatim>\<open>type(vols) is list\<close>).
\<close>

datatype 'v VolumeSet = Single 'v | Many "'v list"

text \<open>
  Every \<^verbatim>\<open>raise\<close> of the module, with what its message is formatted from:
  \<^item> \<open>UnsupportedFormat\<close>: \<^verbatim>\<open>ValueError('Only formats %s are supported' % str(SUPPORTED_FORMATS))\<close>;
  \<^item> \<open>UnrecognizedFormat\<close>: \<^verbatim>\<open>ValueError('Unknown data format for %s' % file_or_dirname)\<close>;
  \<^item> \<open>ConversionUnsupported\<close>: \<^verbatim>\<open>NotImplementedError('%s --> %s not implemented.' % ...)\<close>;
  \<^item> \<open>AmbiguousSource\<close>: \<^verbatim>\<open>ValueError('Ambiguous loading state ... %s' % str(possible_filepaths))\<close>;
  \<^item> \<open>SourceNotFound\<close>: \<^verbatim>\<open>FileNotFoundError('No file associated with basename %s found' % ...)\<close>;
  \<^item> \<open>VolumeCountMismatch\<close>: the failed \<^verbatim>\<open>assert\<close>, \<^verbatim>\<open>"Expected %d volumes, got %d"\<close>;
  \<^item> \<open>ReaderRaised\<close>: an exception raised inside the external reader, passed on unchanged.
\<close>

datatype error =
    UnsupportedFormat "ImageDataFormat list"
  | UnrecognizedFormat string
  | ConversionUnsupported ImageDataFormat ImageDataFormat
  | AmbiguousSource "string list"
  | SourceNotFound string
  | VolumeCountMismatch int nat
  | ReaderRaised string

text \<open>
  The two recognizers are imported from \<^verbatim>\<open>data_io.dicom_io\<close> and \<^verbatim>\<open>data_io.nifti_io\<close>;
  the module only calls them. They are parameters of the model, as is the tuple
  \<^verbatim>\<open>SUPPORTED_FORMATS\<close> imported from \<^verbatim>\<open>data_io.format_io\<close> (a list \<open>fmts\<close> below).
\<close>

record recognizers =
  contains_dicom_extension :: "string \<Rightarrow> bool"
  contains_nifti_extension :: "string \<Rightarrow> bool"


section \<open>The module \<^verbatim>\<open>format_io_utils\<close>\<close>

text \<open>
  \<^verbatim>\<open>get_reader\<close> and \<^verbatim>\<open>get_writer\<close> test \<^verbatim>\<open>data_format == ImageDataFormat.nifti\<close>, then
  \<^verbatim>\<open>ImageDataFormat.dicom\<close>; the enumeration has no third member, so the second test is the
  \<open>else\<close> branch here.
\<close>

definition get_reader :: "ImageDataFormat list \<Rightarrow> ImageDataFormat \<Rightarrow> error + DataReader" where
  "get_reader fmts data_format =
     (if data_format \<notin> set fmts then Inl (UnsupportedFormat fmts)
      else if data_format = nifti then Inr NiftiReader
      else Inr DicomReader)"

definition get_writer :: "ImageDataFormat list \<Rightarrow> ImageDataFormat \<Rightarrow> error + DataWriter" where
  "get_writer fmts data_format =
     (if data_format \<notin> set fmts then Inl (UnsupportedFormat fmts)
      else if data_format = nifti then Inr NiftiWriter
      else Inr DicomWriter)"

definition get_data_format :: "recognizers \<Rightarrow> string \<Rightarrow> error + ImageDataFormat" where
  "get_data_format R file_or_dirname =
     (let (filename_base, ext) = splitext file_or_dirname in
      if ext = [] \<or> contains_dicom_extension R file_or_dirname then Inr dicom
      else if contains_nifti_extension R file_or_dirname then Inr nifti
      else Inl (UnrecognizedFormat file_or_dirname))"

definition convert_format_filename ::
  "recognizers \<Rightarrow> ImageDataFormat list \<Rightarrow> string \<Rightarrow> ImageDataFormat \<Rightarrow> error + string" where
  "convert_format_filename R fmts file_or_dirname new_data_format =
     (if new_data_format \<notin> set fmts then Inl (UnsupportedFormat fmts)
      else case get_data_format R file_or_dirname of
        Inl e \<Rightarrow> Inl e
      | Inr current_format \<Rightarrow>
          if current_format = new_data_format then Inr file_or_dirname
          else if current_format = dicom \<and> new_data_format = nifti then
            Inr (join (dirname file_or_dirname) (basename file_or_dirname @ ''.nii.gz''))
          else if current_format = nifti \<and> new_data_format = dicom then
            Inr (join (dirname file_or_dirname) (split_dot_first (basename file_or_dirname)))
          else Inl (ConversionUnsupported current_format new_data_format))"

text \<open>
  The loop of \<^verbatim>\<open>get_filepath_variations\<close>: \<open>acc\<close> is \<^verbatim>\<open>filepath_variations\<close>, the list
  argument what is left of \<^verbatim>\<open>SUPPORTED_FORMATS\<close>. An exception of
  \<^verbatim>\<open>convert_format_filename\<close> leaves the loop.
\<close>

fun variations_loop ::
  "recognizers \<Rightarrow> ImageDataFormat list \<Rightarrow> string \<Rightarrow> ImageDataFormat list \<Rightarrow> string list
     \<Rightarrow> error + string list" where
  "variations_loop R fmts p [] acc = Inr acc"
| "variations_loop R fmts p (io_format # rest) acc =
     (case convert_format_filename R fmts p io_format of
        Inl e \<Rightarrow> Inl e
      | Inr fp \<Rightarrow> variations_loop R fmts p rest (acc @ [fp]))"

definition get_filepath_variations ::
  "recognizers \<Rightarrow> ImageDataFormat list \<Rightarrow> string \<Rightarrow> error + string list" where
  "get_filepath_variations R fmts file_or_dirname =
     variations_loop R fmts file_or_dirname fmts []"

text \<open>
  The probing loop of \<^verbatim>\<open>generic_load\<close>: \<open>ex\<close> is \<^verbatim>\<open>os.path.exists\<close> on the file system of
  the call, \<open>exist_path\<close> the variable of that name (\<open>None\<close> as in the source), and
  \<open>possible_filepaths\<close> the whole list, which the error message prints.
\<close>

fun probe_loop ::
  "(string \<Rightarrow> bool) \<Rightarrow> string list \<Rightarrow> string list \<Rightarrow> string option \<Rightarrow> error + string option" where
  "probe_loop ex possible_filepaths [] exist_path = Inr exist_path"
| "probe_loop ex possible_filepaths (fp # rest) exist_path =
     (if ex fp then
        (if exist_path \<noteq> None then Inl (AmbiguousSource possible_filepaths)
         else probe_loop ex possible_filepaths rest (Some fp))
      else probe_loop ex possible_filepaths rest exist_path)"

text \<open>\<^verbatim>\<open>if type(vols) is not list: vols = [vols]\<close>\<close>

fun as_list :: "'v VolumeSet \<Rightarrow> 'v list" where
  "as_list (Single v) = [v]"
| "as_list (Many vs) = vs"

text \<open>
  Lines 138 to 149 of \<^verbatim>\<open>generic_load\<close>, on the reader's result \<open>vols\<close>;
  \<^verbatim>\<open>expected_num_volumes\<close> is \<open>None\<close> or a Python integer.
\<close>

definition check_volumes :: "int option \<Rightarrow> 'v VolumeSet \<Rightarrow> error + 'v VolumeSet" where
  "check_volumes expected_num_volumes vols =
     (case expected_num_volumes of
        None \<Rightarrow> Inr vols
      | Some n \<Rightarrow>
          (let vs = as_list vols in
           if int (length vs) \<noteq> n then Inl (VolumeCountMismatch n (length vs))
           else if length vs = 1 then Inr (Single (vs ! 0))
           else Inr (Many vs)))"

text \<open>
  \<^verbatim>\<open>generic_load\<close>; \<open>load\<close> is the \<^verbatim>\<open>load\<close> method of the reader objects, external to the
  module.
\<close>

definition generic_load ::
  "recognizers \<Rightarrow> ImageDataFormat list \<Rightarrow> (string \<Rightarrow> bool)
     \<Rightarrow> (DataReader \<Rightarrow> string \<Rightarrow> error + 'v VolumeSet)
     \<Rightarrow> string \<Rightarrow> int option \<Rightarrow> error + 'v VolumeSet" where
  "generic_load R fmts ex load file_or_dirname expected_num_volumes =
     (case get_filepath_variations R fmts file_or_dirname of
        Inl e \<Rightarrow> Inl e
      | Inr possible_filepaths \<Rightarrow>
          (case probe_loop ex possible_filepaths possible_filepaths None of
             Inl e \<Rightarrow> Inl e
           | Inr None \<Rightarrow> Inl (SourceNotFound (basename file_or_dirname))
           | Inr (Some exist_path) \<Rightarrow>
               (case get_data_format R exist_path of
                  Inl e \<Rightarrow> Inl e
                | Inr io_format \<Rightarrow>
                    (case get_reader fmts io_format of
                       Inl e \<Rightarrow> Inl e
                     | Inr r \<Rightarrow>
                         (case load r exist_path of
                            Inl e \<Rightarrow> Inl e
                          | Inr vols \<Rightarrow> check_volumes expected_num_volumes vols)))))"


section \<open>An instance of the recognizers\<close>

text \<open>
  To run the model on concrete paths the recognizers need values. This instance matches by
  suffix, \<^verbatim>\<open>.dcm\<close> for the directory-based convention and \<^verbatim>\<open>.nii.gz\<close> for the single-file
  one; the general theorems do not depend on it.
\<close>

definition suffix_recognizers :: recognizers where
  "suffix_recognizers =
     \<lparr>contains_dicom_extension = (\<lambda>s. endswith s ''.dcm''),
      contains_nifti_extension = (\<lambda>s. endswith s ''.nii.gz'')\<rparr>"


section \<open>Facts about the path primitives\<close>

lemma rfind_lower: "- 1 \<le> rfind c p"
  by (induction p) (auto simp: Let_def)

lemma rfind_upper: "rfind c p < int (length p)"
  by (induction p) (auto simp: Let_def)

lemma rfind_snoc: "rfind c (xs @ [x]) = (if x = c then int (length xs) else rfind c xs)"
  by (induction xs) (auto simp: Let_def)

lemma rfind_append:
  "rfind c (xs @ ys) = (if 0 \<le> rfind c ys then int (length xs) + rfind c ys else rfind c xs)"
  using rfind_lower [of c ys] by (induction xs) (auto simp: Let_def)

lemma rfind_nth: "0 \<le> rfind c p \<Longrightarrow> p ! nat (rfind c p) = c"
proof (induction p)
  case Nil
  then show ?case by simp
next
  case (Cons x xs)
  show ?case
  proof (cases "0 \<le> rfind c xs")
    case True
    then have "nat (rfind c xs + 1) = Suc (nat (rfind c xs))" by simp
    with True Cons.IH show ?thesis by (simp add: Let_def)
  next
    case False
    with Cons.prems show ?thesis by (simp add: Let_def split: if_splits)
  qed
qed

lemma basename_rev: "basename p = rev (takeWhile (\<lambda>c. c \<noteq> CHR ''/'') (rev p))"
proof (induction p rule: rev_induct)
  case Nil
  then show ?case by (simp add: basename_def)
next
  case (snoc x xs)
  show ?case
  proof (cases "x = CHR ''/''")
    case True
    then show ?thesis by (simp add: basename_def rfind_snoc)
  next
    case False
    have "nat (rfind CHR ''/'' xs + 1) \<le> length xs"
      using rfind_upper [of "CHR ''/''" xs] by simp
    with False snoc show ?thesis by (simp add: basename_def rfind_snoc)
  qed
qed

lemma head_rev:
  "take (nat (rfind CHR ''/'' p + 1)) p = rev (dropWhile (\<lambda>c. c \<noteq> CHR ''/'') (rev p))"
proof (induction p rule: rev_induct)
  case Nil
  then show ?case by simp
next
  case (snoc x xs)
  show ?case
  proof (cases "x = CHR ''/''")
    case True
    then show ?thesis by (simp add: rfind_snoc)
  next
    case False
    have "nat (rfind CHR ''/'' xs + 1) \<le> length xs"
      using rfind_upper [of "CHR ''/''" xs] by simp
    with False snoc show ?thesis by (simp add: rfind_snoc)
  qed
qed

lemma basename_no_sep: "CHR ''/'' \<notin> set (basename p)"
  by (auto simp: basename_rev dest: set_takeWhileD)

lemma join_no_sep:
  "CHR ''/'' \<notin> set b \<Longrightarrow>
   join a b = (if a = [] \<or> last a = CHR ''/'' then a @ b else a @ ''/'' @ b)"
  by (cases b) (auto simp: join_def)

lemma basename_join:
  assumes "CHR ''/'' \<notin> set b"
  shows "basename (join a b) = b"
proof (cases "a = [] \<or> last a = CHR ''/''")
  case True
  have t: "takeWhile (\<lambda>c. c \<noteq> CHR ''/'') (rev a) = []"
    using True by (cases a rule: rev_cases) auto
  have j: "join a b = a @ b"
    using assms True by (simp add: join_no_sep)
  have "takeWhile (\<lambda>c. c \<noteq> CHR ''/'') (rev b @ rev a) = rev b"
    using assms t by (simp add: takeWhile_append)
  then show ?thesis by (simp add: j basename_rev)
next
  case False
  have j: "join a b = a @ ''/'' @ b"
    using assms False by (simp add: join_no_sep)
  have "takeWhile (\<lambda>c. c \<noteq> CHR ''/'') (rev b @ CHR ''/'' # rev a) = rev b"
    using assms by (simp add: takeWhile_append)
  then show ?thesis by (simp add: j basename_rev)
qed

lemma rstrip_sep_shape: "rstrip_sep s = [] \<or> last (rstrip_sep s) \<noteq> CHR ''/''"
proof -
  have "dropWhile (\<lambda>c. c = CHR ''/'') (rev s) = [] \<or> hd (dropWhile (\<lambda>c. c = CHR ''/'') (rev s)) \<noteq> CHR ''/''"
    using hd_dropWhile [of "\<lambda>c. c = CHR ''/''" "rev s"] by blast
  then show ?thesis
    by (auto simp: rstrip_sep_def last_rev)
qed

lemma dirname_shape:
  "dirname p = [] \<or> dirname p = replicate (length (dirname p)) CHR ''/'' \<or> last (dirname p) \<noteq> CHR ''/''"
  using rstrip_sep_shape [of "take (nat (rfind CHR ''/'' p + 1)) p"]
  by (auto simp: dirname_def Let_def)

lemma dirname_join_shape:
  assumes b: "CHR ''/'' \<notin> set b"
    and d: "d = [] \<or> d = replicate (length d) CHR ''/'' \<or> last d \<noteq> CHR ''/''"
  shows "dirname (join d b) = d"
proof -
  let ?P = "\<lambda>c. c \<noteq> CHR ''/''"
  have allb: "\<And>x. x \<in> set (rev b) \<Longrightarrow> ?P x" using b by auto
  consider (empty) "d = []" | (slashes) "d \<noteq> []" "d = replicate (length d) CHR ''/''"
    | (name) "d \<noteq> []" "last d \<noteq> CHR ''/''"
    using d by blast
  then show ?thesis
  proof cases
    case empty
    have "dropWhile ?P (rev b) = []" using allb by (simp add: dropWhile_eq_Nil_conv)
    with empty b show ?thesis
      by (simp add: join_no_sep dirname_def head_rev)
  next
    case slashes
    from slashes have l: "last d = CHR ''/''"
      by (metis last_replicate length_0_conv)
    have j: "join d b = d @ b" using b l by (simp add: join_no_sep)
    have "dropWhile ?P (rev d) = rev d"
      using slashes(1) l by (cases d rule: rev_cases) auto
    moreover have "dropWhile ?P (rev b @ rev d) = dropWhile ?P (rev d)"
      by (rule dropWhile_append2) (use b in auto)
    ultimately have h: "rev (dropWhile ?P (rev (d @ b))) = d"
      by simp
    show ?thesis
      unfolding dirname_def j head_rev h Let_def using slashes by simp
  next
    case name
    have j: "join d b = d @ ''/'' @ b" using b name by (simp add: join_no_sep)
    have "dropWhile ?P (rev b @ CHR ''/'' # rev d) = dropWhile ?P (CHR ''/'' # rev d)"
      by (rule dropWhile_append2) (use b in auto)
    then have h: "rev (dropWhile ?P (rev (d @ ''/'' @ b))) = d @ ''/''"
      by simp
    have ns: "d @ ''/'' \<noteq> replicate (length (d @ ''/'')) CHR ''/''"
    proof
      assume "d @ ''/'' = replicate (length (d @ ''/'')) CHR ''/''"
      then have "set (d @ ''/'') \<subseteq> {CHR ''/''}" by (metis set_replicate_conv_if empty_subsetI subset_refl)
      with name show False by (cases d rule: rev_cases) auto
    qed
    have r: "rstrip_sep (d @ ''/'') = d"
      using name by (cases d rule: rev_cases) (auto simp: rstrip_sep_def)
    show ?thesis
      unfolding dirname_def j head_rev h Let_def using ns r by simp
  qed
qed

lemma dirname_join: "CHR ''/'' \<notin> set b \<Longrightarrow> dirname (join (dirname p) b) = dirname p"
  using dirname_join_shape [OF _ dirname_shape] .

lemma splitext_loop_found:
  "i \<le> k \<Longrightarrow> k < d \<Longrightarrow> take 1 (drop k p) \<noteq> ''.'' \<Longrightarrow>
   splitext_loop p i d = (take d p, drop d p)"
proof (induction p i d rule: splitext_loop.induct)
  case (1 p i d)
  show ?case
  proof (cases "take 1 (drop i p) \<noteq> ''.''")
    case True
    with "1.prems" show ?thesis by (simp add: splitext_loop.simps [of p i d])
  next
    case False
    with "1.prems" have "i \<noteq> k" by auto
    with "1.prems" have "i + 1 \<le> k" by simp
    with "1.IH" [OF _ _ this] "1.prems" False show ?thesis
      by (simp add: splitext_loop.simps [of p i d])
  qed
qed

lemma splitext_no_dot:
  assumes "CHR ''.'' \<notin> set (basename p)"
  shows "snd (splitext p) = []"
proof -
  have "\<not> rfind CHR ''.'' p > rfind CHR ''/'' p"
  proof
    assume g: "rfind CHR ''.'' p > rfind CHR ''/'' p"
    let ?k = "nat (rfind CHR ''.'' p)" and ?n = "nat (rfind CHR ''/'' p + 1)"
    from g rfind_lower [of "CHR ''/''" p] have nn: "0 \<le> rfind CHR ''.'' p" by simp
    then have at: "p ! ?k = CHR ''.''" by (rule rfind_nth)
    have lt: "?k < length p" using rfind_upper [of "CHR ''.''" p] nn by simp
    have le: "?n \<le> ?k" using g nn by simp
    have "drop ?n p ! (?k - ?n) = p ! ?k" using le lt by simp
    moreover have "?k - ?n < length (drop ?n p)" using le lt by simp
    ultimately have "p ! ?k \<in> set (drop ?n p)" by (metis nth_mem)
    with at assms show False by (simp add: basename_def)
  qed
  then show ?thesis by (simp add: splitext_def Let_def)
qed

lemma splitext_nii_gz: "snd (splitext (ys @ ''.nii.gz'')) = ''.gz''"
proof -
  let ?p = "ys @ ''.nii.gz''"
  have dot: "rfind CHR ''.'' ?p = int (length ys) + 4"
    by (simp add: rfind_append Let_def)
  have sep: "rfind CHR ''/'' ?p = rfind CHR ''/'' ys"
    by (simp add: rfind_append Let_def)
  have up: "rfind CHR ''/'' ys < int (length ys)" by (rule rfind_upper)
  have lo: "- 1 \<le> rfind CHR ''/'' ys" by (rule rfind_lower)
  have gt: "rfind CHR ''.'' ?p > rfind CHR ''/'' ?p" using dot sep up by simp
  have d: "nat (rfind CHR ''.'' ?p) = length ys + 4" using dot by simp
  have i: "nat (rfind CHR ''/'' ?p + 1) \<le> length ys + 1" using sep up by simp
  have "splitext_loop ?p (nat (rfind CHR ''/'' ?p + 1)) (length ys + 4)
        = (take (length ys + 4) ?p, drop (length ys + 4) ?p)"
    by (rule splitext_loop_found [OF i]) simp_all
  then show ?thesis using gt d by (simp add: splitext_def Let_def)
qed


section \<open>Resolution and renaming\<close>

lemma get_data_format_unfold:
  "get_data_format R p =
     (if snd (splitext p) = [] \<or> contains_dicom_extension R p then Inr dicom
      else if contains_nifti_extension R p then Inr nifti
      else Inl (UnrecognizedFormat p))"
  by (simp add: get_data_format_def split: prod.splits)

lemma convert_supported:
  "c \<in> set fmts \<Longrightarrow> get_data_format R p = Inr cur \<Longrightarrow>
   convert_format_filename R fmts p c =
     Inr (if cur = c then p
          else if c = nifti then join (dirname p) (basename p @ ''.nii.gz'')
          else join (dirname p) (split_dot_first (basename p)))"
  by (cases cur; cases c) (simp_all add: convert_format_filename_def)

lemma convert_InrD:
  "convert_format_filename R fmts p c = Inr q \<Longrightarrow>
   c \<in> set fmts \<and> (\<exists>cur. get_data_format R p = Inr cur)"
  by (auto simp: convert_format_filename_def split: if_splits sum.splits)

lemma endswith_append: "endswith (ys @ s) s"
  by (simp add: endswith_def)

lemma endswith_last: "endswith s ext \<Longrightarrow> ext \<noteq> [] \<Longrightarrow> last s = last ext"
proof -
  assume e: "endswith s ext" and n: "ext \<noteq> []"
  have "s = take (length s - length ext) s @ drop (length s - length ext) s" by simp
  with e have "s = take (length s - length ext) s @ ext" by (simp add: endswith_def)
  then have "last s = last (take (length s - length ext) s @ ext)" by simp
  with n show ?thesis by simp
qed

lemma nii_gz_target:
  "\<exists>ys. join (dirname p) (basename p @ ''.nii.gz'') = ys @ ''.nii.gz''"
proof -
  have "CHR ''/'' \<notin> set (basename p @ ''.nii.gz'')"
    using basename_no_sep [of p] by simp
  then have "join (dirname p) (basename p @ ''.nii.gz'') =
      (if dirname p = [] \<or> last (dirname p) = CHR ''/'' then dirname p @ basename p @ ''.nii.gz''
       else dirname p @ ''/'' @ basename p @ ''.nii.gz'')"
    by (rule join_no_sep)
  then show ?thesis
    by (metis append.assoc)
qed

lemma split_dot_first_no_dot: "CHR ''.'' \<notin> set (split_dot_first s)"
  by (auto simp: split_dot_first_def dest: set_takeWhileD)

lemma split_dot_first_no_sep: "CHR ''/'' \<notin> set s \<Longrightarrow> CHR ''/'' \<notin> set (split_dot_first s)"
  by (auto simp: split_dot_first_def dest: set_takeWhileD)

lemma dicom_target_ext:
  "snd (splitext (join (dirname p) (split_dot_first (basename p)))) = []"
proof -
  have "CHR ''/'' \<notin> set (split_dot_first (basename p))"
    by (rule split_dot_first_no_sep) (rule basename_no_sep)
  then have "basename (join (dirname p) (split_dot_first (basename p))) = split_dot_first (basename p)"
    by (rule basename_join)
  then have "CHR ''.'' \<notin> set (basename (join (dirname p) (split_dot_first (basename p))))"
    by (simp add: split_dot_first_no_dot)
  then show ?thesis by (rule splitext_no_dot)
qed

text \<open>
  Claim C2. Whenever renaming a path \<open>p\<close> to a convention \<open>c\<close> succeeds, classifying the
  result yields \<open>c\<close>. The recognizers are external to the module: the statement takes from
  them only that a path ending in the suffix \<^verbatim>\<open>.nii.gz\<close>, which the renaming appends, is
  accepted by the single-file recognizer and not by the directory one.
\<close>

theorem rename_then_resolve:
  assumes ok: "convert_format_filename R fmts p c = Inr q"
    and suffix: "\<forall>s. endswith s ''.nii.gz'' \<longrightarrow>
                   contains_nifti_extension R s \<and> \<not> contains_dicom_extension R s"
  shows "get_data_format R q = Inr c"
proof -
  from convert_InrD [OF ok] obtain cur where c: "c \<in> set fmts"
    and cur: "get_data_format R p = Inr cur" by blast
  note q = convert_supported [OF c cur]
  show ?thesis
  proof (cases "cur = c")
    case True
    with q ok cur show ?thesis by simp
  next
    case False
    show ?thesis
    proof (cases c)
      case nifti
      with False q ok have qeq: "q = join (dirname p) (basename p @ ''.nii.gz'')" by simp
      then obtain ys where ys: "q = ys @ ''.nii.gz''" using nii_gz_target [of p] by auto
      have "endswith q ''.nii.gz''" unfolding ys by (rule endswith_append)
      with suffix have "contains_nifti_extension R q" "\<not> contains_dicom_extension R q" by auto
      moreover have "snd (splitext q) \<noteq> []" unfolding ys by (simp add: splitext_nii_gz)
      ultimately show ?thesis using nifti by (simp add: get_data_format_unfold)
    next
      case dicom
      with False q ok have "q = join (dirname p) (split_dot_first (basename p))" by simp
      then have "snd (splitext q) = []" by (simp add: dicom_target_ext)
      then show ?thesis using dicom by (simp add: get_data_format_unfold)
    qed
  qed
qed

lemma suffix_recognizers_disjoint:
  "\<forall>s. endswith s ''.nii.gz'' \<longrightarrow>
     contains_nifti_extension suffix_recognizers s \<and> \<not> contains_dicom_extension suffix_recognizers s"
proof (intro allI impI conjI)
  fix s assume e: "endswith s ''.nii.gz''"
  then show "contains_nifti_extension suffix_recognizers s" by (simp add: suffix_recognizers_def)
  show "\<not> contains_dicom_extension suffix_recognizers s"
  proof
    assume "contains_dicom_extension suffix_recognizers s"
    then have "endswith s ''.dcm''" by (simp add: suffix_recognizers_def)
    then have "last s = CHR ''m''" using endswith_last [of s "''.dcm''"] by simp
    moreover have "last s = CHR ''z''" using endswith_last [OF e] by simp
    ultimately show False by simp
  qed
qed

theorem rename_then_resolve_witness:
  "convert_format_filename suffix_recognizers [nifti, dicom] ''/data/scan'' nifti = Inr ''/data/scan.nii.gz''
   \<and> get_data_format suffix_recognizers ''/data/scan.nii.gz'' = Inr nifti
   \<and> convert_format_filename suffix_recognizers [nifti, dicom] ''/data/scan.nii.gz'' dicom = Inr ''/data/scan''
   \<and> get_data_format suffix_recognizers ''/data/scan'' = Inr dicom"
proof -
  have a: "convert_format_filename suffix_recognizers [nifti, dicom] ''/data/scan'' nifti = Inr ''/data/scan.nii.gz''"
    by code_simp
  have b: "convert_format_filename suffix_recognizers [nifti, dicom] ''/data/scan.nii.gz'' dicom = Inr ''/data/scan''"
    by code_simp
  show ?thesis
    using a b rename_then_resolve [OF a suffix_recognizers_disjoint]
      rename_then_resolve [OF b suffix_recognizers_disjoint] by simp
qed

text \<open>
  Claim C3. For every path on which the classification succeeds, renaming the path to its own
  current convention returns it unchanged (the convention being one of the supported ones, which
  the renaming checks first).
\<close>

theorem rename_to_current_is_identity:
  assumes "get_data_format R p = Inr c" and "c \<in> set fmts"
  shows "convert_format_filename R fmts p c = Inr p"
  using assms by (simp add: convert_format_filename_def)

theorem rename_to_current_is_identity_witness:
  "get_data_format suffix_recognizers ''/data/scan.nii.gz'' = Inr nifti
   \<and> nifti \<in> set [nifti, dicom]
   \<and> convert_format_filename suffix_recognizers [nifti, dicom] ''/data/scan.nii.gz'' nifti
       = Inr ''/data/scan.nii.gz''"
proof -
  have a: "get_data_format suffix_recognizers ''/data/scan.nii.gz'' = Inr nifti" by code_simp
  have b: "nifti \<in> set [nifti, dicom]" by simp
  show ?thesis using a b rename_to_current_is_identity [OF a b] by simp
qed

text \<open>
  Claim C4. The classification looks at the name only and follows a fixed priority: an empty
  extension or a match of the directory recognizer gives the directory-based convention;
  otherwise a match of the single-file recognizer gives the single-file convention; otherwise
  it fails with \<open>UnrecognizedFormat\<close> carrying the path. An empty extension gives the
  directory-based convention whatever the recognizers say.
\<close>

theorem get_data_format_priority:
  "(snd (splitext p) = [] \<or> contains_dicom_extension R p \<longrightarrow> get_data_format R p = Inr dicom)
   \<and> (snd (splitext p) \<noteq> [] \<and> \<not> contains_dicom_extension R p \<and> contains_nifti_extension R p
        \<longrightarrow> get_data_format R p = Inr nifti)
   \<and> (snd (splitext p) \<noteq> [] \<and> \<not> contains_dicom_extension R p \<and> \<not> contains_nifti_extension R p
        \<longrightarrow> get_data_format R p = Inl (UnrecognizedFormat p))"
  by (simp add: get_data_format_unfold)

theorem get_data_format_priority_witness:
  "snd (splitext ''/data/scan'') = []
   \<and> get_data_format \<lparr>contains_dicom_extension = (\<lambda>s. False),
                       contains_nifti_extension = (\<lambda>s. True)\<rparr> ''/data/scan'' = Inr dicom
   \<and> get_data_format suffix_recognizers ''/data/slice.dcm'' = Inr dicom
   \<and> get_data_format suffix_recognizers ''/data/scan.nii.gz'' = Inr nifti
   \<and> get_data_format suffix_recognizers ''/data/scan.txt'' = Inl (UnrecognizedFormat ''/data/scan.txt'')"
proof -
  let ?N = "\<lparr>contains_dicom_extension = (\<lambda>s. False), contains_nifti_extension = (\<lambda>s. True)\<rparr>"
  have e: "snd (splitext ''/data/scan'') = []" by code_simp
  have d: "contains_dicom_extension suffix_recognizers ''/data/slice.dcm''" by code_simp
  have n: "snd (splitext ''/data/scan.nii.gz'') \<noteq> []
           \<and> \<not> contains_dicom_extension suffix_recognizers ''/data/scan.nii.gz''
           \<and> contains_nifti_extension suffix_recognizers ''/data/scan.nii.gz''" by code_simp
  have u: "snd (splitext ''/data/scan.txt'') \<noteq> []
           \<and> \<not> contains_dicom_extension suffix_recognizers ''/data/scan.txt''
           \<and> \<not> contains_nifti_extension suffix_recognizers ''/data/scan.txt''" by code_simp
  show ?thesis
    using e d n u
      get_data_format_priority [of "''/data/scan''" ?N]
      get_data_format_priority [of "''/data/slice.dcm''" suffix_recognizers]
      get_data_format_priority [of "''/data/scan.nii.gz''" suffix_recognizers]
      get_data_format_priority [of "''/data/scan.txt''" suffix_recognizers]
    by blast
qed

text \<open>
  Claim C6. For a convention outside the supported set, \<open>get_reader\<close>, \<open>get_writer\<close> and the
  renaming all fail with \<open>UnsupportedFormat\<close> carrying the whole supported set; the renaming
  does so for every path, before it classifies the path.
\<close>

theorem unsupported_format_rejected:
  assumes "c \<notin> set fmts"
  shows "get_reader fmts c = Inl (UnsupportedFormat fmts)
         \<and> get_writer fmts c = Inl (UnsupportedFormat fmts)
         \<and> convert_format_filename R fmts p c = Inl (UnsupportedFormat fmts)"
  using assms by (simp add: get_reader_def get_writer_def convert_format_filename_def)

theorem unsupported_format_rejected_witness:
  "dicom \<notin> set [nifti]
   \<and> get_reader [nifti] dicom = Inl (UnsupportedFormat [nifti])
   \<and> get_writer [nifti] dicom = Inl (UnsupportedFormat [nifti])
   \<and> get_data_format suffix_recognizers ''/data/scan.txt'' = Inl (UnrecognizedFormat ''/data/scan.txt'')
   \<and> convert_format_filename suffix_recognizers [nifti] ''/data/scan.txt'' dicom
       = Inl (UnsupportedFormat [nifti])"
proof -
  have a: "dicom \<notin> set [nifti]" by simp
  have b: "get_data_format suffix_recognizers ''/data/scan.txt'' = Inl (UnrecognizedFormat ''/data/scan.txt'')"
    by code_simp
  show ?thesis
    using a b unsupported_format_rejected [OF a, of suffix_recognizers "''/data/scan.txt''"] by simp
qed

text \<open>
  Claim C5. Renaming a directory-based path to the single-file convention appends
  \<^verbatim>\<open>.nii.gz\<close> to the base name and keeps the parent directory; renaming a single-file path to
  the directory-based convention cuts the base name at its first dot and keeps the parent
  directory.
\<close>

theorem rename_between_conventions:
  "(get_data_format R p = Inr dicom \<and> nifti \<in> set fmts \<longrightarrow>
      (\<exists>q. convert_format_filename R fmts p nifti = Inr q
         \<and> q = join (dirname p) (basename p @ ''.nii.gz'')
         \<and> dirname q = dirname p \<and> basename q = basename p @ ''.nii.gz''))
   \<and> (get_data_format R p = Inr nifti \<and> dicom \<in> set fmts \<longrightarrow>
      (\<exists>q. convert_format_filename R fmts p dicom = Inr q
         \<and> q = join (dirname p) (takeWhile (\<lambda>c. c \<noteq> CHR ''.'') (basename p))
         \<and> dirname q = dirname p
         \<and> basename q = takeWhile (\<lambda>c. c \<noteq> CHR ''.'') (basename p)))"
proof (intro conjI impI)
  assume a: "get_data_format R p = Inr dicom \<and> nifti \<in> set fmts"
  have ns: "CHR ''/'' \<notin> set (basename p @ ''.nii.gz'')"
    using basename_no_sep [of p] by simp
  have "convert_format_filename R fmts p nifti = Inr (join (dirname p) (basename p @ ''.nii.gz''))"
    using a by (simp add: convert_supported)
  then show "\<exists>q. convert_format_filename R fmts p nifti = Inr q
         \<and> q = join (dirname p) (basename p @ ''.nii.gz'')
         \<and> dirname q = dirname p \<and> basename q = basename p @ ''.nii.gz''"
    using dirname_join [OF ns] basename_join [OF ns] by simp
next
  assume a: "get_data_format R p = Inr nifti \<and> dicom \<in> set fmts"
  have ns: "CHR ''/'' \<notin> set (split_dot_first (basename p))"
    by (rule split_dot_first_no_sep) (rule basename_no_sep)
  have "convert_format_filename R fmts p dicom = Inr (join (dirname p) (split_dot_first (basename p)))"
    using a by (simp add: convert_supported)
  then show "\<exists>q. convert_format_filename R fmts p dicom = Inr q
         \<and> q = join (dirname p) (takeWhile (\<lambda>c. c \<noteq> CHR ''.'') (basename p))
         \<and> dirname q = dirname p
         \<and> basename q = takeWhile (\<lambda>c. c \<noteq> CHR ''.'') (basename p)"
    using dirname_join [OF ns] basename_join [OF ns] by (simp add: split_dot_first_def)
qed

theorem rename_between_conventions_witness:
  "convert_format_filename suffix_recognizers [nifti, dicom] ''/data/scan'' nifti
     = Inr ''/data/scan.nii.gz''
   \<and> convert_format_filename suffix_recognizers [nifti, dicom] ''/data/scan.nii.gz'' dicom
     = Inr ''/data/scan''
   \<and> convert_format_filename suffix_recognizers [nifti, dicom] ''/data/knee.v2.nii.gz'' dicom
     = Inr ''/data/knee''"
proof -
  let ?F = "[nifti, dicom]"
  have d: "get_data_format suffix_recognizers ''/data/scan'' = Inr dicom \<and> nifti \<in> set ?F"
    by code_simp
  have n: "get_data_format suffix_recognizers ''/data/scan.nii.gz'' = Inr nifti \<and> dicom \<in> set ?F"
    by code_simp
  have k: "get_data_format suffix_recognizers ''/data/knee.v2.nii.gz'' = Inr nifti \<and> dicom \<in> set ?F"
    by code_simp
  have jd: "join (dirname ''/data/scan'') (basename ''/data/scan'' @ ''.nii.gz'') = ''/data/scan.nii.gz''"
    by code_simp
  have jn: "join (dirname ''/data/scan.nii.gz'')
              (takeWhile (\<lambda>c. c \<noteq> CHR ''.'') (basename ''/data/scan.nii.gz'')) = ''/data/scan''"
    by code_simp
  have jk: "join (dirname ''/data/knee.v2.nii.gz'')
              (takeWhile (\<lambda>c. c \<noteq> CHR ''.'') (basename ''/data/knee.v2.nii.gz'')) = ''/data/knee''"
    by code_simp
  from d rename_between_conventions [of suffix_recognizers "''/data/scan''" ?F]
  have 1: "convert_format_filename suffix_recognizers ?F ''/data/scan'' nifti = Inr ''/data/scan.nii.gz''"
    unfolding jd by blast
  from n rename_between_conventions [of suffix_recognizers "''/data/scan.nii.gz''" ?F]
  have 2: "convert_format_filename suffix_recognizers ?F ''/data/scan.nii.gz'' dicom = Inr ''/data/scan''"
    unfolding jn by blast
  from k rename_between_conventions [of suffix_recognizers "''/data/knee.v2.nii.gz''" ?F]
  have 3: "convert_format_filename suffix_recognizers ?F ''/data/knee.v2.nii.gz'' dicom = Inr ''/data/knee''"
    unfolding jk by blast
  from 1 2 3 show ?thesis by blast
qed

lemma variations_loop_total:
  "\<forall>c \<in> set rest. \<exists>q. convert_format_filename R fmts p c = Inr q \<Longrightarrow>
   \<exists>fps. variations_loop R fmts p rest acc = Inr (acc @ fps)
     \<and> map (convert_format_filename R fmts p) rest = map Inr fps"
proof (induction rest arbitrary: acc)
  case Nil
  then show ?case by simp
next
  case (Cons c rest)
  from Cons.prems obtain q where q: "convert_format_filename R fmts p c = Inr q" by auto
  from Cons.prems have "\<forall>c \<in> set rest. \<exists>q. convert_format_filename R fmts p c = Inr q" by simp
  from Cons.IH [OF this, of "acc @ [q]"] obtain fps where
    l: "variations_loop R fmts p rest (acc @ [q]) = Inr ((acc @ [q]) @ fps)"
    and m: "map (convert_format_filename R fmts p) rest = map Inr fps" by blast
  have "variations_loop R fmts p (c # rest) acc = Inr (acc @ (q # fps))"
    using q l by simp
  moreover have "map (convert_format_filename R fmts p) (c # rest) = map Inr (q # fps)"
    using q m by simp
  ultimately show ?case by blast
qed

text \<open>
  Claim C7. For every path on which the classification succeeds, the variations are one path
  per supported convention, in the order of the supported set: the path at each position is the
  renaming of the input to the convention at that position.
\<close>

theorem variations_follow_registry:
  assumes "get_data_format R p = Inr cur"
  shows "\<exists>fps. get_filepath_variations R fmts p = Inr fps
           \<and> length fps = length fmts
           \<and> map (convert_format_filename R fmts p) fmts = map Inr fps"
proof -
  have "\<forall>c \<in> set fmts. \<exists>q. convert_format_filename R fmts p c = Inr q"
    using assms by (simp add: convert_supported)
  from variations_loop_total [OF this, of "[]"] obtain fps where
    v: "get_filepath_variations R fmts p = Inr fps"
    and m: "map (convert_format_filename R fmts p) fmts = map Inr fps"
    by (auto simp: get_filepath_variations_def)
  from m have "length fmts = length fps" by (rule map_eq_imp_length_eq)
  with v m show ?thesis by simp
qed

theorem variations_follow_registry_witness:
  "get_data_format suffix_recognizers ''/data/scan'' = Inr dicom
   \<and> get_filepath_variations suffix_recognizers [nifti, dicom] ''/data/scan''
       = Inr [''/data/scan.nii.gz'', ''/data/scan'']"
proof -
  let ?F = "[nifti, dicom]"
  have a: "get_data_format suffix_recognizers ''/data/scan'' = Inr dicom" by code_simp
  have c: "map (convert_format_filename suffix_recognizers ?F ''/data/scan'') ?F
             = [Inr ''/data/scan.nii.gz'', Inr ''/data/scan'']" by code_simp
  from variations_follow_registry [OF a, of ?F] obtain fps where
    v: "get_filepath_variations suffix_recognizers ?F ''/data/scan'' = Inr fps"
    and m: "map (convert_format_filename suffix_recognizers ?F ''/data/scan'') ?F = map Inr fps"
    by blast
  from m c have "map Inr fps = [Inr ''/data/scan.nii.gz'', Inr ''/data/scan'' :: error + string]"
    by simp
  then have "fps = [''/data/scan.nii.gz'', ''/data/scan'']" by auto
  with a v show ?thesis by simp
qed


section \<open>Generic loading\<close>

lemma probe_loop_Some:
  "probe_loop ex all fps (Some a) =
     (if filter ex fps = [] then Inr (Some a) else Inl (AmbiguousSource all))"
  by (induction fps) auto

lemma probe_loop_None:
  "probe_loop ex all fps None =
     (case filter ex fps of
        [] \<Rightarrow> Inr None
      | [fp] \<Rightarrow> Inr (Some fp)
      | fp # fp' # rest \<Rightarrow> Inl (AmbiguousSource all))"
proof (induction fps)
  case Nil
  then show ?case by simp
next
  case (Cons x xs)
  then show ?case by (simp add: probe_loop_Some split: list.splits)
qed

lemma variations_loop_length:
  "variations_loop R fmts p rest acc = Inr fps \<Longrightarrow> length fps = length acc + length rest"
proof (induction rest arbitrary: acc)
  case Nil
  then show ?case by simp
next
  case (Cons c rest)
  then show ?case by (fastforce split: sum.splits)
qed

lemma variations_length:
  "get_filepath_variations R fmts p = Inr fps \<Longrightarrow> length fps = length fmts"
  using variations_loop_length [of R fmts p fmts "[]" fps]
  by (simp add: get_filepath_variations_def)

lemma distinct_formats_length: "distinct (fmts :: ImageDataFormat list) \<Longrightarrow> length fmts \<le> 2"
proof -
  assume d: "distinct fmts"
  have "set fmts \<subseteq> {nifti, dicom}"
    using ImageDataFormat.exhaust by blast
  then have "card (set fmts) \<le> card {nifti, dicom}"
    by (intro card_mono) auto
  with d show ?thesis by (simp add: distinct_card)
qed

lemma filter_all_of_two:
  assumes "length xs \<le> 2" and "1 < length (filter P xs)"
  shows "filter P xs = xs"
proof -
  have "length (filter P xs) \<le> length xs" by (rule length_filter_le)
  with assms have "length (filter P xs) = length xs" by arith
  then show ?thesis by (metis length_filter_less filter_True less_irrefl)
qed

text \<open>
  Claim C1. When more than one of the variations of a path exists on the file system, the
  load fails with \<open>AmbiguousSource\<close>, and the paths the error carries are exactly the existing
  variations. (The error carries the whole list of variations; with a supported set that lists
  each convention once there are at most two of them, so that all of them exist.)
\<close>

theorem load_ambiguous:
  assumes v: "get_filepath_variations R fmts p = Inr fps"
    and d: "distinct fmts"
    and m: "1 < length (filter ex fps)"
  shows "generic_load R fmts ex load p expected = Inl (AmbiguousSource fps)
         \<and> filter ex fps = fps"
proof -
  from m obtain a b rest where f: "filter ex fps = a # b # rest"
    by (cases "filter ex fps" rule: list.exhaust; cases "tl (filter ex fps)") auto
  then have "probe_loop ex fps fps None = Inl (AmbiguousSource fps)"
    by (simp add: probe_loop_None)
  with v have "generic_load R fmts ex load p expected = Inl (AmbiguousSource fps)"
    by (simp add: generic_load_def)
  moreover have "length fps \<le> 2"
    using variations_length [OF v] distinct_formats_length [OF d] by simp
  then have "filter ex fps = fps" using m by (rule filter_all_of_two)
  ultimately show ?thesis by simp
qed

theorem load_ambiguous_witness:
  "generic_load suffix_recognizers [nifti, dicom]
     (\<lambda>fp. fp = ''/data/scan'' \<or> fp = ''/data/scan.nii.gz'')
     (\<lambda>r fp. Inr (Single (0::nat))) ''/data/scan'' None
   = Inl (AmbiguousSource [''/data/scan.nii.gz'', ''/data/scan''])"
proof -
  let ?ex = "\<lambda>fp. fp = ''/data/scan'' \<or> fp = ''/data/scan.nii.gz''"
  have v: "get_filepath_variations suffix_recognizers [nifti, dicom] ''/data/scan''
             = Inr [''/data/scan.nii.gz'', ''/data/scan'']" by code_simp
  have d: "distinct [nifti, dicom]" by simp
  have m: "1 < length (filter ?ex [''/data/scan.nii.gz'', ''/data/scan''])" by simp
  show ?thesis using load_ambiguous [OF v d m] by blast
qed

lemma load_reaches_reader:
  assumes "get_filepath_variations R fmts p = Inr fps"
    and "filter ex fps = [ep]"
    and "get_data_format R ep = Inr f"
    and "get_reader fmts f = Inr r"
    and "load r ep = Inr vols"
  shows "generic_load R fmts ex load p expected = check_volumes expected vols"
proof -
  have "probe_loop ex fps fps None = Inr (Some ep)"
    using assms(2) by (simp add: probe_loop_None)
  with assms show ?thesis by (simp add: generic_load_def)
qed

text \<open>
  Claim C8. When the load is given an expected count and the reader's result, a single volume
  counting as a list of one, has another length, the load fails with \<open>VolumeCountMismatch\<close>
  carrying the expected and the actual count.
\<close>

theorem load_count_mismatch:
  assumes "get_filepath_variations R fmts p = Inr fps"
    and "filter ex fps = [ep]"
    and "get_data_format R ep = Inr f"
    and "get_reader fmts f = Inr r"
    and "load r ep = Inr vols"
    and "int (length (as_list vols)) \<noteq> n"
  shows "generic_load R fmts ex load p (Some n)
           = Inl (VolumeCountMismatch n (length (as_list vols)))"
  using load_reaches_reader [where load = load and expected = "Some n", OF assms(1-5)] assms(6)
  by (simp add: check_volumes_def Let_def)

theorem load_count_mismatch_witness:
  "generic_load suffix_recognizers [nifti, dicom] (\<lambda>fp. fp = ''/data/scan'')
     (\<lambda>r fp. Inr (Many [10, 20, 30 :: nat])) ''/data/scan'' (Some 1)
   = Inl (VolumeCountMismatch 1 3)"
proof -
  let ?ex = "\<lambda>fp. fp = ''/data/scan''" and ?load = "\<lambda>(r::DataReader) (fp::string). (Inr (Many [10, 20, 30 :: nat]) :: error + nat VolumeSet)"
  have v: "get_filepath_variations suffix_recognizers [nifti, dicom] ''/data/scan''
             = Inr [''/data/scan.nii.gz'', ''/data/scan'']" by code_simp
  have e: "filter ?ex [''/data/scan.nii.gz'', ''/data/scan''] = [''/data/scan'']" by simp
  have g: "get_data_format suffix_recognizers ''/data/scan'' = Inr dicom" by code_simp
  have r: "get_reader [nifti, dicom] dicom = Inr DicomReader" by code_simp
  have l: "?load DicomReader ''/data/scan'' = Inr (Many [10, 20, 30])" by simp
  have c: "int (length (as_list (Many [10, 20, 30 :: nat]))) \<noteq> 1" by simp
  show ?thesis using load_count_mismatch [where load = ?load, OF v e g r l c] by simp
qed

text \<open>
  Claim C9. Without an expected count the load returns what the reader returned, unchanged.
  With an expected count that the result meets, a result of length one comes back as the single
  element, and a longer result comes back as the same list.
\<close>

theorem load_result_shape:
  assumes "get_filepath_variations R fmts p = Inr fps"
    and "filter ex fps = [ep]"
    and "get_data_format R ep = Inr f"
    and "get_reader fmts f = Inr r"
    and "load r ep = Inr vols"
  shows "generic_load R fmts ex load p None = Inr vols
         \<and> (length (as_list vols) = 1 \<longrightarrow>
              generic_load R fmts ex load p (Some 1) = Inr (Single (hd (as_list vols))))
         \<and> (1 < length (as_list vols) \<longrightarrow>
              generic_load R fmts ex load p (Some (int (length (as_list vols)))) = Inr vols)"
proof (intro conjI impI)
  show "generic_load R fmts ex load p None = Inr vols"
    using load_reaches_reader [where load = load and expected = None, OF assms] by (simp add: check_volumes_def)
next
  assume "length (as_list vols) = 1"
  then obtain v where "as_list vols = [v]"
    by (cases "as_list vols") auto
  then show "generic_load R fmts ex load p (Some 1) = Inr (Single (hd (as_list vols)))"
    using load_reaches_reader [where load = load and expected = "Some 1", OF assms]
    by (simp add: check_volumes_def Let_def)
next
  assume l: "1 < length (as_list vols)"
  then obtain vs where "vols = Many vs" by (cases vols) auto
  with l show "generic_load R fmts ex load p (Some (int (length (as_list vols)))) = Inr vols"
    using load_reaches_reader [where load = load and expected = "Some (int (length (as_list vols)))", OF assms]
    by (simp add: check_volumes_def Let_def)
qed

theorem load_result_shape_witness:
  "generic_load suffix_recognizers [nifti, dicom] (\<lambda>fp. fp = ''/data/scan'')
     (\<lambda>r fp. Inr (Many [10, 20 :: nat])) ''/data/scan'' None = Inr (Many [10, 20])
   \<and> generic_load suffix_recognizers [nifti, dicom] (\<lambda>fp. fp = ''/data/scan'')
     (\<lambda>r fp. Inr (Many [10 :: nat])) ''/data/scan'' (Some 1) = Inr (Single 10)
   \<and> generic_load suffix_recognizers [nifti, dicom] (\<lambda>fp. fp = ''/data/scan'')
     (\<lambda>r fp. Inr (Many [10, 20 :: nat])) ''/data/scan'' (Some 2) = Inr (Many [10, 20])"
proof -
  let ?ex = "\<lambda>fp. fp = ''/data/scan''"
  let ?two = "\<lambda>(r::DataReader) (fp::string). (Inr (Many [10, 20 :: nat]) :: error + nat VolumeSet)"
  let ?one = "\<lambda>(r::DataReader) (fp::string). (Inr (Many [10 :: nat]) :: error + nat VolumeSet)"
  have v: "get_filepath_variations suffix_recognizers [nifti, dicom] ''/data/scan''
             = Inr [''/data/scan.nii.gz'', ''/data/scan'']" by code_simp
  have e: "filter ?ex [''/data/scan.nii.gz'', ''/data/scan''] = [''/data/scan'']" by simp
  have g: "get_data_format suffix_recognizers ''/data/scan'' = Inr dicom" by code_simp
  have r: "get_reader [nifti, dicom] dicom = Inr DicomReader" by code_simp
  have l2: "?two DicomReader ''/data/scan'' = Inr (Many [10, 20])" by simp
  have l1: "?one DicomReader ''/data/scan'' = Inr (Many [10])" by simp
  show ?thesis
    using load_result_shape [where load = ?two, OF v e g r l2]
      load_result_shape [where load = ?one, OF v e g r l1] by simp
qed

text \<open>
  Claim C10. A path with a non-empty extension that neither recognizer accepts makes the load
  fail with \<open>UnrecognizedFormat\<close> for that path. The error comes out of the enumeration of
  the variations, so the outcome is the same whatever exists on the file system: the load never
  reports \<open>SourceNotFound\<close> for such a path.
\<close>

theorem load_unrecognized_before_probe:
  assumes "snd (splitext p) \<noteq> []"
    and "\<not> contains_dicom_extension R p" and "\<not> contains_nifti_extension R p"
    and "fmts \<noteq> []"
  shows "get_filepath_variations R fmts p = Inl (UnrecognizedFormat p)
         \<and> generic_load R fmts ex load p expected = Inl (UnrecognizedFormat p)"
proof -
  have g: "get_data_format R p = Inl (UnrecognizedFormat p)"
    using assms by (simp add: get_data_format_unfold)
  from assms(4) obtain c rest where f: "fmts = c # rest" by (cases fmts) auto
  then have "c \<in> set fmts" by simp
  then have "convert_format_filename R fmts p c = Inl (UnrecognizedFormat p)"
    using g by (simp add: convert_format_filename_def)
  then have "variations_loop R fmts p (c # rest) [] = Inl (UnrecognizedFormat p)" by simp
  then have v: "get_filepath_variations R fmts p = Inl (UnrecognizedFormat p)"
    using f by (simp add: get_filepath_variations_def)
  then show ?thesis by (simp add: generic_load_def)
qed

theorem load_unrecognized_before_probe_witness:
  "generic_load suffix_recognizers [nifti, dicom] (\<lambda>fp. False) (\<lambda>r fp. Inr (Single (0::nat)))
     ''/data/scan.txt'' None = Inl (UnrecognizedFormat ''/data/scan.txt'')
   \<and> generic_load suffix_recognizers [nifti, dicom] (\<lambda>fp. True) (\<lambda>r fp. Inr (Single (0::nat)))
     ''/data/scan.txt'' None = Inl (UnrecognizedFormat ''/data/scan.txt'')"
proof -
  have a: "snd (splitext ''/data/scan.txt'') \<noteq> []" by code_simp
  have b: "\<not> contains_dicom_extension suffix_recognizers ''/data/scan.txt''" by code_simp
  have c: "\<not> contains_nifti_extension suffix_recognizers ''/data/scan.txt''" by code_simp
  have d: "[nifti, dicom] \<noteq> []" by simp
  show ?thesis
    using load_unrecognized_before_probe [OF a b c d] by blast
qed

end
